theory Spec2Isabelle
  imports Main
begin

section \<open>Python values shared by both analysers\<close>

text \<open>
  Exceptions that can leave the modelled functions. \<open>SystemExit\<close> is what
  \<^verbatim>\<open>sys.exit(1)\<close> raises; \<open>RegexError\<close> stands for \<^verbatim>\<open>re.error\<close>.
\<close>

datatype exn = IndexError | KeyError | ValueError | SystemExit int | RegexError

text \<open>Python indexing \<^verbatim>\<open>xs[i]\<close>: a negative index counts from the end.\<close>

definition py_index :: "'a list \<Rightarrow> int \<Rightarrow> exn + 'a" where
  "py_index xs i =
     (if 0 \<le> i \<and> i < int (length xs) then Inr (xs ! nat i)
      else if - int (length xs) \<le> i \<and> i < 0 then Inr (xs ! nat (int (length xs) + i))
      else Inl IndexError)"

section \<open>Lexical scanner (work1.py)\<close>

subsection \<open>Characters\<close>

text \<open>
  Source text is modelled as a list of \<^typ>\<open>char\<close>, that is, of code points
  0 to 255. On this range the predicates below are Python's
  \<^verbatim>\<open>str.isalpha\<close>, \<^verbatim>\<open>str.isdigit\<close>, \<^verbatim>\<open>str.isalnum\<close> and
  \<^verbatim>\<open>str.lower\<close> (which follow the Unicode database, so a few Latin-1
  characters count as letters or digits).
\<close>

definition ord :: "char \<Rightarrow> nat" where
  "ord c = of_char c"

definition isdigit :: "char \<Rightarrow> bool" where
  "isdigit c = (let n = ord c in (48 \<le> n \<and> n \<le> 57) \<or> n = 178 \<or> n = 179 \<or> n = 185)"

definition isalpha :: "char \<Rightarrow> bool" where
  "isalpha c = (let n = ord c in
     (65 \<le> n \<and> n \<le> 90) \<or> (97 \<le> n \<and> n \<le> 122) \<or> n = 170 \<or> n = 181 \<or> n = 186 \<or>
     (192 \<le> n \<and> n \<le> 214) \<or> (216 \<le> n \<and> n \<le> 246) \<or> (248 \<le> n \<and> n \<le> 255))"

definition isalnum :: "char \<Rightarrow> bool" where
  "isalnum c = (isalpha c \<or> isdigit c \<or> (188 \<le> ord c \<and> ord c \<le> 190))"

definition lower :: "char \<Rightarrow> char" where
  "lower c = (let n = ord c in
     if (65 \<le> n \<and> n \<le> 90) \<or> (192 \<le> n \<and> n \<le> 222 \<and> n \<noteq> 215) then char_of (n + 32) else c)"

abbreviation NL :: char where "NL \<equiv> CHR 0x0A"
abbreviation TAB :: char where "TAB \<equiv> CHR 0x09"
abbreviation CR :: char where "CR \<equiv> CHR 0x0D"
abbreviation BACKSLASH :: char where "BACKSLASH \<equiv> CHR 0x5C"
abbreviation DQUOTE :: char where "DQUOTE \<equiv> CHR 0x22"
abbreviation SQUOTE :: char where "SQUOTE \<equiv> CHR 0x27"

subsection \<open>The regular expressions of \<^verbatim>\<open>determine_token_type\<close>\<close>

text \<open>
  The patterns handed to \<^verbatim>\<open>re.match\<close> are kept as syntax trees and decided by
  derivatives. \<open>Cls p\<close> is one character satisfying \<open>p\<close>.
\<close>

datatype rexp = Nul | Eps | Cls "char \<Rightarrow> bool" | Seq rexp rexp | Alt rexp rexp | Star rexp

definition Plus :: "rexp \<Rightarrow> rexp" where
  "Plus r = Seq r (Star r)"

definition Opt :: "rexp \<Rightarrow> rexp" where
  "Opt r = Alt r Eps"

primrec nullable :: "rexp \<Rightarrow> bool" where
  "nullable Nul = False"
| "nullable Eps = True"
| "nullable (Cls p) = False"
| "nullable (Seq r s) = (nullable r \<and> nullable s)"
| "nullable (Alt r s) = (nullable r \<or> nullable s)"
| "nullable (Star r) = True"

primrec deriv :: "char \<Rightarrow> rexp \<Rightarrow> rexp" where
  "deriv c Nul = Nul"
| "deriv c Eps = Nul"
| "deriv c (Cls p) = (if p c then Eps else Nul)"
| "deriv c (Seq r s) =
     (if nullable r then Alt (Seq (deriv c r) s) (deriv c s) else Seq (deriv c r) s)"
| "deriv c (Alt r s) = Alt (deriv c r) (deriv c s)"
| "deriv c (Star r) = Seq (deriv c r) (Star r)"

primrec derivs :: "rexp \<Rightarrow> string \<Rightarrow> rexp" where
  "derivs r [] = r"
| "derivs r (c # cs) = derivs (deriv c r) cs"

definition fullmatch :: "rexp \<Rightarrow> string \<Rightarrow> bool" where
  "fullmatch r s = nullable (derivs r s)"

text \<open>
  \<^verbatim>\<open>re.match('^r$', s)\<close> is not None: \<^verbatim>\<open>$\<close> also matches just before a
  newline that ends the string.
\<close>

definition re_match :: "rexp \<Rightarrow> string \<Rightarrow> bool" where
  "re_match r s = (fullmatch r s \<or> (s \<noteq> [] \<and> last s = NL \<and> fullmatch r (butlast s)))"

text \<open>Character classes: \<^verbatim>\<open>\d\<close>, \<^verbatim>\<open>\w\<close>, \<^verbatim>\<open>.\<close> and the bracketed sets.\<close>

definition cls_d :: "char \<Rightarrow> bool" where
  "cls_d c = (48 \<le> ord c \<and> ord c \<le> 57)"

definition cls_w :: "char \<Rightarrow> bool" where
  "cls_w c = (isalnum c \<or> c = CHR ''_'')"

definition cls_dot :: "char \<Rightarrow> bool" where
  "cls_dot c = (c \<noteq> NL)"

definition cls_ident_start :: "char \<Rightarrow> bool" where
  "cls_ident_start c = ((65 \<le> ord c \<and> ord c \<le> 90) \<or> (97 \<le> ord c \<and> ord c \<le> 122) \<or> c = CHR ''_'')"

definition cls_1_9 :: "char \<Rightarrow> bool" where
  "cls_1_9 c = (49 \<le> ord c \<and> ord c \<le> 57)"

definition cls_sign :: "char \<Rightarrow> bool" where
  "cls_sign c = (c = CHR ''+'' \<or> c = CHR ''-'')"

definition cls_Ee :: "char \<Rightarrow> bool" where
  "cls_Ee c = (c = CHR ''E'' \<or> c = CHR ''e'')"

definition is_char :: "char \<Rightarrow> char \<Rightarrow> bool" where
  "is_char a c = (c = a)"

text \<open>\<^verbatim>\<open>(\d+\.\d+|\d+)\<close>\<close>

definition rx_decimal :: rexp where
  "rx_decimal = Alt (Seq (Plus (Cls cls_d)) (Seq (Cls (is_char (CHR ''.''))) (Plus (Cls cls_d))))
                    (Plus (Cls cls_d))"

text \<open>\<^verbatim>\<open>^[a-zA-Z_]\w*$\<close>\<close>

definition rx_identifier :: rexp where
  "rx_identifier = Seq (Cls cls_ident_start) (Star (Cls cls_w))"

text \<open>\<^verbatim>\<open>^[+-]?(\d+\.\d+|\d+)[Ee][+-]?\d+$\<close>\<close>

definition scientific_pattern :: rexp where
  "scientific_pattern =
     Seq (Opt (Cls cls_sign))
       (Seq rx_decimal (Seq (Cls cls_Ee) (Seq (Opt (Cls cls_sign)) (Plus (Cls cls_d)))))"

text \<open>\<^verbatim>\<open>^[+-]?(\d+\.\d+|\d+)[+-](\d+\.\d+|\d+)i$\<close>\<close>

definition complex_pattern :: rexp where
  "complex_pattern =
     Seq (Opt (Cls cls_sign))
       (Seq rx_decimal (Seq (Cls cls_sign) (Seq rx_decimal (Cls (is_char (CHR ''i''))))))"

text \<open>\<^verbatim>\<open>^([1-9]\d*|0)$\<close>\<close>

definition rx_integer :: rexp where
  "rx_integer = Alt (Seq (Cls cls_1_9) (Star (Cls cls_d))) (Cls (is_char (CHR ''0'')))"

text \<open>\<^verbatim>\<open>^[+-]?\d+\.\d+$\<close>\<close>

definition rx_float :: rexp where
  "rx_float =
     Seq (Opt (Cls cls_sign))
       (Seq (Plus (Cls cls_d)) (Seq (Cls (is_char (CHR ''.''))) (Plus (Cls cls_d))))"

text \<open>\<^verbatim>\<open>^".*"$\<close> and \<^verbatim>\<open>^'.*'$\<close>\<close>

definition rx_quoted :: "char \<Rightarrow> rexp" where
  "rx_quoted q = Seq (Cls (is_char q)) (Seq (Star (Cls cls_dot)) (Cls (is_char q)))"

subsection \<open>Tokens and scanner state\<close>

datatype TokenType = KEYWORD | IDENTIFIER | CONSTANT | DELIMITER | OPERATOR | ERROR

datatype Token = Token (t_line: int) (t_type: TokenType) (t_value: string)

datatype dfa_state = START | IDENTIFIER_S | NUMBER | SCIENTIFIC | COMPLEX | STRING

text \<open>
  The attributes of a \<^verbatim>\<open>Lexer\<close> instance. Of its \<^verbatim>\<open>GrammarParser\<close> the
  scanner reads only the keyword set; a keyword is a Python string, a list of
  code points.
\<close>

record Lexer =
  grammar_keywords :: "nat list list"
  line :: int
  pos :: int
  tokens :: "Token list"
  current_state :: dfa_state
  buffer :: string
  current_input :: string

definition code_points :: "string \<Rightarrow> nat list" where
  "code_points s = map ord s"

definition determine_token_type :: "nat list list \<Rightarrow> string \<Rightarrow> TokenType" where
  "determine_token_type kws v =
     (if code_points v \<in> set kws then KEYWORD
      else if re_match rx_identifier v then IDENTIFIER
      else if re_match scientific_pattern v then CONSTANT
      else if re_match complex_pattern v then CONSTANT
      else if re_match rx_integer v then CONSTANT
      else if re_match rx_float v then CONSTANT
      else if re_match (rx_quoted DQUOTE) v \<or> re_match (rx_quoted SQUOTE) v then CONSTANT
      else ERROR)"

definition finalize_token :: "Lexer \<Rightarrow> Lexer" where
  "finalize_token lx =
     lx\<lparr>tokens := tokens lx @ [Token (line lx) (determine_token_type (grammar_keywords lx) (buffer lx)) (buffer lx)],
        buffer := []\<rparr>"

definition add_operator :: "Lexer \<Rightarrow> string \<Rightarrow> Lexer" where
  "add_operator lx s = lx\<lparr>tokens := tokens lx @ [Token (line lx) OPERATOR s]\<rparr>"

definition add_delimiter :: "Lexer \<Rightarrow> string \<Rightarrow> Lexer" where
  "add_delimiter lx s = lx\<lparr>tokens := tokens lx @ [Token (line lx) DELIMITER s]\<rparr>"

definition add_error :: "Lexer \<Rightarrow> string \<Rightarrow> Lexer" where
  "add_error lx s = lx\<lparr>tokens := tokens lx @ [Token (line lx) ERROR s]\<rparr>"

subsection \<open>The handlers of the six states\<close>

text \<open>
  \<^verbatim>\<open>handle_start\<close>: the final \<^verbatim>\<open>else: self.add_error(char)\<close> is commented out
  in the source, so a character outside every class falls through the chain.
\<close>

definition handle_start :: "Lexer \<Rightarrow> char \<Rightarrow> Lexer" where
  "handle_start lx c =
     (if isalpha c \<or> c = CHR ''_'' then lx\<lparr>current_state := IDENTIFIER_S, buffer := buffer lx @ [c]\<rparr>
      else if isdigit c then lx\<lparr>current_state := NUMBER, buffer := buffer lx @ [c]\<rparr>
      else if c = DQUOTE then lx\<lparr>current_state := STRING, buffer := buffer lx @ [c]\<rparr>
      else if c \<in> set ''+-*/=<>!&|'' then add_operator lx [c]
      else if c \<in> set '';,(){}[]'' then add_delimiter lx [c]
      else if c \<in> {CHR '' '', TAB, CR} then lx
      else lx)"

definition handle_string :: "Lexer \<Rightarrow> char \<Rightarrow> exn + Lexer" where
  "handle_string lx c =
     (let lx1 = lx\<lparr>buffer := buffer lx @ [c]\<rparr> in
      if c = DQUOTE then
        (case py_index (buffer lx1) (-2) of
           Inl e \<Rightarrow> Inl e
         | Inr b \<Rightarrow>
             if b \<noteq> BACKSLASH then Inr ((finalize_token lx1)\<lparr>current_state := START\<rparr>)
             else Inr lx1)
      else if c = NL then
        Inr ((add_error lx1 (buffer lx1))\<lparr>buffer := [], current_state := START\<rparr>)
      else Inr lx1)"

definition handle_identifier :: "Lexer \<Rightarrow> char \<Rightarrow> Lexer" where
  "handle_identifier lx c =
     (if isalnum c \<or> c = CHR ''_'' then lx\<lparr>buffer := buffer lx @ [c]\<rparr>
      else (finalize_token lx)\<lparr>pos := pos lx - 1, current_state := START\<rparr>)"

text \<open>
  The inner loop of the leading-zero rule:
  \<^verbatim>\<open>while self.pos < len(self.current_input) and self.current_input[self.pos].isdigit()\<close>.
\<close>

function consume_digits :: "string \<Rightarrow> int \<Rightarrow> string \<Rightarrow> exn + (int \<times> string)" where
  "consume_digits inp p buf =
     (if p < int (length inp) then
        (case py_index inp p of
           Inl e \<Rightarrow> Inl e
         | Inr d \<Rightarrow> if isdigit d then consume_digits inp (p + 1) (buf @ [d]) else Inr (p, buf))
      else Inr (p, buf))"
  by pat_completeness auto
termination
  by (relation "measure (\<lambda>(inp, p, buf). nat (int (length inp) - p))") auto

declare consume_digits.simps [simp del]

definition has_e :: "string \<Rightarrow> bool" where
  "has_e s = (CHR ''e'' \<in> set (map lower s))"

definition handle_number :: "Lexer \<Rightarrow> char \<Rightarrow> exn + Lexer" where
  "handle_number lx c =
     (let buffer_str = buffer lx in
      if length buffer_str = 1 \<and> hd buffer_str = CHR ''0'' \<and> isdigit c then
        (case consume_digits (current_input lx) (pos lx) (buffer lx @ [c]) of
           Inl e \<Rightarrow> Inl e
         | Inr (p, buf) \<Rightarrow>
             Inr ((add_error (lx\<lparr>buffer := buf, pos := p\<rparr>) buf)\<lparr>buffer := [], current_state := START\<rparr>))
      else if isdigit c then Inr (lx\<lparr>buffer := buffer lx @ [c]\<rparr>)
      else if c = CHR ''.'' \<and> CHR ''.'' \<notin> set buffer_str \<and> \<not> has_e buffer_str then
        Inr (lx\<lparr>buffer := buffer lx @ [c]\<rparr>)
      else if lower c = CHR ''e'' \<and> \<not> has_e buffer_str then
        Inr (lx\<lparr>buffer := buffer lx @ [c], current_state := SCIENTIFIC\<rparr>)
      else if c = CHR ''+'' \<or> c = CHR ''-'' then
        (case py_index buffer_str (-1) of
           Inl e \<Rightarrow> Inl e
         | Inr b \<Rightarrow>
             if lower b = CHR ''e'' then Inr (lx\<lparr>buffer := buffer lx @ [c]\<rparr>)
             else Inr (lx\<lparr>buffer := buffer lx @ [c], current_state := COMPLEX\<rparr>))
      else Inr ((finalize_token lx)\<lparr>pos := pos lx - 1, current_state := START\<rparr>))"

definition handle_scientific :: "Lexer \<Rightarrow> char \<Rightarrow> Lexer" where
  "handle_scientific lx c =
     (if isdigit c \<or> c = CHR ''+'' \<or> c = CHR ''-'' then lx\<lparr>buffer := buffer lx @ [c]\<rparr>
      else (finalize_token lx)\<lparr>pos := pos lx - 1, current_state := START\<rparr>)"

text \<open>\<^verbatim>\<open>s.split(c)[-1]\<close>: what follows the last \<open>c\<close> in \<open>s\<close>.\<close>

definition split_last :: "char \<Rightarrow> string \<Rightarrow> string" where
  "split_last c s = rev (takeWhile (\<lambda>x. x \<noteq> c) (rev s))"

definition handle_complex :: "Lexer \<Rightarrow> char \<Rightarrow> Lexer" where
  "handle_complex lx c =
     (let buffer_str = buffer lx in
      if isdigit c then lx\<lparr>buffer := buffer lx @ [c]\<rparr>
      else if c = CHR ''.'' \<and>
              CHR ''.'' \<notin> set (split_last (CHR ''-'') (split_last (CHR ''+'') buffer_str)) then
        lx\<lparr>buffer := buffer lx @ [c]\<rparr>
      else if c = CHR ''i'' \<and> length buffer_str > 1 then
        (finalize_token (lx\<lparr>buffer := buffer lx @ [c]\<rparr>))\<lparr>current_state := START\<rparr>
      else
        (let v = butlast buffer_str;
             lx1 = (if v \<noteq> [] then finalize_token (lx\<lparr>buffer := v\<rparr>) else lx)
         in lx1\<lparr>pos := pos lx1 - 2, current_state := START, buffer := []\<rparr>))"

text \<open>
  \<^verbatim>\<open>self.dfa_states.get(self.current_state, self.handle_unknown)(char)\<close>:
  \<^verbatim>\<open>current_state\<close> is only ever assigned one of the six keys of the table, so
  the default \<^verbatim>\<open>handle_unknown\<close> is never selected.
\<close>

definition handler :: "Lexer \<Rightarrow> char \<Rightarrow> exn + Lexer" where
  "handler lx c =
     (case current_state lx of
        START \<Rightarrow> Inr (handle_start lx c)
      | IDENTIFIER_S \<Rightarrow> Inr (handle_identifier lx c)
      | NUMBER \<Rightarrow> handle_number lx c
      | SCIENTIFIC \<Rightarrow> Inr (handle_scientific lx c)
      | COMPLEX \<Rightarrow> Inr (handle_complex lx c)
      | STRING \<Rightarrow> handle_string lx c)"

subsection \<open>The main loop\<close>

text \<open>One iteration of \<^verbatim>\<open>while self.pos < len(code)\<close>, for a state that passed the test.\<close>

definition step :: "Lexer \<Rightarrow> exn + Lexer" where
  "step lx =
     (case py_index (current_input lx) (pos lx) of
        Inl e \<Rightarrow> Inl e
      | Inr c \<Rightarrow>
          (let lx1 = lx\<lparr>pos := pos lx + 1\<rparr>;
               lx2 = (if c = NL then lx1\<lparr>line := line lx1 + 1\<rparr> else lx1)
           in handler lx2 c))"

text \<open>
  The loop stops: three times the distance to the end of the input, plus a weight of
  the state, decreases in every iteration. A handler that steps back (by one after
  finalising, by two in \<^verbatim>\<open>handle_complex\<close>) returns to \<open>START\<close>, which has
  the least weight.
\<close>

fun weight :: "dfa_state \<Rightarrow> int" where
  "weight START = 0"
| "weight IDENTIFIER_S = 1"
| "weight SCIENTIFIC = 1"
| "weight STRING = 1"
| "weight NUMBER = 2"
| "weight COMPLEX = 4"

definition loop_measure :: "Lexer \<Rightarrow> nat" where
  "loop_measure lx = nat (3 * (int (length (current_input lx)) - pos lx) + weight (current_state lx))"

definition progress :: "Lexer \<Rightarrow> Lexer \<Rightarrow> bool" where
  "progress lx lx' = (current_input lx' = current_input lx \<and>
     3 * (- pos lx') + weight (current_state lx') < 3 * (- (pos lx - 1)) + weight (current_state lx))"

lemma consume_digits_mono:
  "consume_digits inp p buf = Inr (p', buf') \<Longrightarrow> p \<le> p'"
proof (induction inp p buf rule: consume_digits.induct)
  case (1 inp p buf)
  from "1.prems" show ?case
    by (subst (asm) consume_digits.simps) (force split: if_splits sum.splits dest: "1.IH")
qed

lemma progress_start: "current_state lx = START \<Longrightarrow> progress lx (handle_start lx c)"
  by (simp add: progress_def handle_start_def add_operator_def add_delimiter_def)

lemma progress_identifier: "current_state lx = IDENTIFIER_S \<Longrightarrow> progress lx (handle_identifier lx c)"
  by (simp add: progress_def handle_identifier_def finalize_token_def)

lemma progress_scientific: "current_state lx = SCIENTIFIC \<Longrightarrow> progress lx (handle_scientific lx c)"
  by (simp add: progress_def handle_scientific_def finalize_token_def)

lemma progress_complex: "current_state lx = COMPLEX \<Longrightarrow> progress lx (handle_complex lx c)"
  by (simp add: progress_def handle_complex_def finalize_token_def Let_def)

lemma progress_string:
  "current_state lx = STRING \<Longrightarrow> handle_string lx c = Inr lx' \<Longrightarrow> progress lx lx'"
  by (auto simp: progress_def handle_string_def finalize_token_def add_error_def Let_def
      split: if_splits sum.splits)

lemma progress_number:
  "current_state lx = NUMBER \<Longrightarrow> handle_number lx c = Inr lx' \<Longrightarrow> progress lx lx'"
  unfolding handle_number_def Let_def
  by (auto simp: progress_def finalize_token_def add_error_def
      split: if_splits sum.splits prod.splits dest!: consume_digits_mono)

lemma handler_progress: "handler lx c = Inr lx' \<Longrightarrow> progress lx lx'"
  by (cases "current_state lx")
     (auto simp: handler_def progress_start progress_identifier progress_scientific
        progress_complex progress_string progress_number)

lemma step_decreases:
  assumes "pos lx < int (length (current_input lx))" "step lx = Inr lx'"
  shows "loop_measure lx' < loop_measure lx"
proof -
  from assms(2) obtain c lx2 where h: "handler lx2 c = Inr lx'"
    and p: "pos lx2 = pos lx + 1" and s: "current_state lx2 = current_state lx"
    and i: "current_input lx2 = current_input lx"
    by (auto simp: step_def Let_def split: sum.splits if_splits)
  from handler_progress[OF h] p s i
  have "current_input lx' = current_input lx"
    and "3 * (- pos lx') + weight (current_state lx') < 3 * (- pos lx) + weight (current_state lx)"
    by (auto simp: progress_def)
  moreover have "0 \<le> weight (current_state lx)" by (cases "current_state lx") auto
  ultimately show ?thesis using assms(1) by (simp add: loop_measure_def)
qed

function tokenize_loop :: "Lexer \<Rightarrow> exn + Lexer" where
  "tokenize_loop lx =
     (if pos lx < int (length (current_input lx)) then
        (case step lx of Inl e \<Rightarrow> Inl e | Inr lx' \<Rightarrow> tokenize_loop lx')
      else Inr lx)"
  by pat_completeness auto
termination
  by (relation "measure loop_measure") (auto simp: step_decreases)

declare tokenize_loop.simps [simp del]

text \<open>
  \<^verbatim>\<open>tokenize\<close> returns \<^verbatim>\<open>self.tokens\<close>; the model returns that list together with
  the instance as the call leaves it. Only \<^verbatim>\<open>current_state\<close>, \<^verbatim>\<open>buffer\<close>,
  \<^verbatim>\<open>pos\<close> and \<^verbatim>\<open>current_input\<close> are assigned on entry.
\<close>

definition tokenize_entry :: "Lexer \<Rightarrow> string \<Rightarrow> Lexer" where
  "tokenize_entry lx code = lx\<lparr>current_state := START, buffer := [], pos := 0, current_input := code\<rparr>"

definition tokenize :: "Lexer \<Rightarrow> string \<Rightarrow> exn + (Token list \<times> Lexer)" where
  "tokenize lx code =
     (case tokenize_loop (tokenize_entry lx code) of
        Inl e \<Rightarrow> Inl e
      | Inr lx1 \<Rightarrow>
          (let lx2 = (if buffer lx1 \<noteq> [] then finalize_token lx1 else lx1)
           in Inr (tokens lx2, lx2)))"

text \<open>
  \<^verbatim>\<open>Lexer.__init__\<close> after the grammar file is read: line 1, position 0, no tokens.
  The three attributes that \<^verbatim>\<open>tokenize\<close> creates are given their entry values.
\<close>

definition Lexer_init :: "nat list list \<Rightarrow> Lexer" where
  "Lexer_init kws = \<lparr>grammar_keywords = kws, line = 1, pos = 0, tokens = [],
     current_state = START, buffer = [], current_input = []\<rparr>"

subsection \<open>States the loop can reach, and what it never does\<close>

definition scan_inv :: "Lexer \<Rightarrow> bool" where
  "scan_inv lx =
     (0 \<le> pos lx \<and>
      (current_state lx = NUMBER \<longrightarrow> buffer lx \<noteq> [] \<and> 1 \<le> pos lx) \<and>
      (current_state lx = STRING \<longrightarrow> buffer lx \<noteq> []) \<and>
      (current_state lx = COMPLEX \<longrightarrow> 2 \<le> pos lx))"

inductive reachable :: "Lexer \<Rightarrow> string \<Rightarrow> Lexer \<Rightarrow> bool" for lx0 :: Lexer and code :: string where
  entry: "reachable lx0 code (tokenize_entry lx0 code)"
| iter: "reachable lx0 code lx \<Longrightarrow> pos lx < int (length (current_input lx)) \<Longrightarrow>
         step lx = Inr lx' \<Longrightarrow> reachable lx0 code lx'"

definition complex_fallback :: "string \<Rightarrow> char \<Rightarrow> bool" where
  "complex_fallback buffer_str c =
     (\<not> isdigit c \<and>
      \<not> (c = CHR ''.'' \<and> CHR ''.'' \<notin> set (split_last (CHR ''-'') (split_last (CHR ''+'') buffer_str))) \<and>
      \<not> (c = CHR ''i'' \<and> length buffer_str > 1))"

lemma py_index_in_range:
  "0 \<le> i \<Longrightarrow> i < int (length xs) \<Longrightarrow> py_index xs i = Inr (xs ! nat i)"
  by (simp add: py_index_def)

lemma consume_digits_ok:
  "0 \<le> p \<Longrightarrow> \<exists>p' buf'. consume_digits inp p buf = Inr (p', buf') \<and> p \<le> p'"
proof (induction inp p buf rule: consume_digits.induct)
  case (1 inp p buf)
  show ?case
  proof (cases "p < int (length inp)")
    case False
    then show ?thesis by (subst consume_digits.simps) simp
  next
    case True
    with "1.prems" have ix: "py_index inp p = Inr (inp ! nat p)" by (simp add: py_index_in_range)
    show ?thesis
    proof (cases "isdigit (inp ! nat p)")
      case False
      with True ix show ?thesis by (subst consume_digits.simps) simp
    next
      case d: True
      from "1.IH"[OF True ix d] "1.prems"
      obtain p' buf' where "consume_digits inp (p + 1) (buf @ [inp ! nat p]) = Inr (p', buf')" "p + 1 \<le> p'"
        by auto
      with True ix d show ?thesis by (subst consume_digits.simps) simp
    qed
  qed
qed

lemma inv_start: "scan_inv lx \<Longrightarrow> current_state lx = START \<Longrightarrow>
    scan_inv (handle_start (lx\<lparr>pos := pos lx + 1, line := l\<rparr>) c)"
  by (simp add: scan_inv_def handle_start_def add_operator_def add_delimiter_def)

lemma inv_identifier: "scan_inv lx \<Longrightarrow> current_state lx = IDENTIFIER_S \<Longrightarrow>
    scan_inv (handle_identifier (lx\<lparr>pos := pos lx + 1, line := l\<rparr>) c)"
  by (simp add: scan_inv_def handle_identifier_def finalize_token_def)

lemma inv_scientific: "scan_inv lx \<Longrightarrow> current_state lx = SCIENTIFIC \<Longrightarrow>
    scan_inv (handle_scientific (lx\<lparr>pos := pos lx + 1, line := l\<rparr>) c)"
  by (simp add: scan_inv_def handle_scientific_def finalize_token_def)

lemma inv_complex: "scan_inv lx \<Longrightarrow> current_state lx = COMPLEX \<Longrightarrow>
    scan_inv (handle_complex (lx\<lparr>pos := pos lx + 1, line := l\<rparr>) c)"
  by (simp add: scan_inv_def handle_complex_def finalize_token_def Let_def)

lemma inv_string: "scan_inv lx \<Longrightarrow> current_state lx = STRING \<Longrightarrow>
    \<exists>lx'. handle_string (lx\<lparr>pos := pos lx + 1, line := l\<rparr>) c = Inr lx' \<and> scan_inv lx'"
  by (cases "buffer lx" rule: rev_cases)
     (auto simp: scan_inv_def handle_string_def finalize_token_def add_error_def Let_def py_index_def)

lemma inv_number:
  assumes "scan_inv lx" "current_state lx = NUMBER"
  shows "\<exists>lx'. handle_number (lx\<lparr>pos := pos lx + 1, line := l\<rparr>) c = Inr lx' \<and> scan_inv lx'"
proof -
  from assms have b: "buffer lx \<noteq> []" and p: "1 \<le> pos lx" by (auto simp: scan_inv_def)
  from b have ix: "\<exists>x. py_index (buffer lx) (-1) = Inr x"
    by (cases "buffer lx") (simp_all add: py_index_def)
  from p obtain p' buf' where
    cd: "consume_digits (current_input lx) (pos lx + 1) (buffer lx @ [c]) = Inr (p', buf')" "pos lx + 1 \<le> p'"
    using consume_digits_ok[of "pos lx + 1" "current_input lx" "buffer lx @ [c]"] by auto
  show ?thesis
    using assms ix cd
    unfolding handle_number_def Let_def
    by (auto simp: scan_inv_def finalize_token_def add_error_def)
qed

lemma handler_inv:
  "scan_inv lx \<Longrightarrow> \<exists>lx'. handler (lx\<lparr>pos := pos lx + 1, line := l\<rparr>) c = Inr lx' \<and> scan_inv lx'"
  by (cases "current_state lx")
     (simp_all add: handler_def inv_start inv_identifier inv_scientific inv_complex inv_string inv_number)

lemma step_inv:
  assumes "scan_inv lx" "pos lx < int (length (current_input lx))"
  shows "\<exists>lx'. step lx = Inr lx' \<and> scan_inv lx'"
proof -
  from assms have "py_index (current_input lx) (pos lx) = Inr (current_input lx ! nat (pos lx))"
    by (simp add: scan_inv_def py_index_in_range)
  moreover have "lx\<lparr>pos := pos lx + 1, line := line lx\<rparr> = lx\<lparr>pos := pos lx + 1\<rparr>" by simp
  ultimately show ?thesis
    using handler_inv[OF assms(1), of "line lx" "current_input lx ! nat (pos lx)"]
      handler_inv[OF assms(1), of "line lx + 1" NL]
    by (auto simp: step_def Let_def)
qed

lemma loop_total: "scan_inv lx \<Longrightarrow> \<exists>lx'. tokenize_loop lx = Inr lx'"
proof (induction lx rule: tokenize_loop.induct)
  case (1 lx)
  show ?case
  proof (cases "pos lx < int (length (current_input lx))")
    case False
    then show ?thesis by (subst tokenize_loop.simps) simp
  next
    case True
    from step_inv[OF "1.prems" True] obtain lx1 where s: "step lx = Inr lx1" "scan_inv lx1" by auto
    from "1.IH"[OF True s(1) s(2)] True s(1) show ?thesis
      by (subst tokenize_loop.simps) simp
  qed
qed

lemma entry_inv: "scan_inv (tokenize_entry lx code)"
  by (simp add: scan_inv_def tokenize_entry_def)

lemma tokenize_total: "\<exists>ts lx'. tokenize lx code = Inr (ts, lx')"
  using loop_total[OF entry_inv, of lx code] by (auto simp: tokenize_def Let_def)

lemma reachable_inv: "reachable lx0 code lx \<Longrightarrow> scan_inv lx"
proof (induction rule: reachable.induct)
  case entry
  show ?case by (rule entry_inv)
next
  case (iter lx lx')
  with step_inv[of lx] show ?case by auto
qed

subsection \<open>The token list and the line counter across calls\<close>

definition shift_line :: "int \<Rightarrow> Token \<Rightarrow> Token" where
  "shift_line d t = Token (t_line t + d) (t_type t) (t_value t)"

definition rebase :: "Token list \<Rightarrow> int \<Rightarrow> Lexer \<Rightarrow> Lexer" where
  "rebase ts d lx = lx\<lparr>tokens := ts @ map (shift_line d) (tokens lx), line := line lx + d\<rparr>"

definition on_result :: "('a \<Rightarrow> 'b) \<Rightarrow> exn + 'a \<Rightarrow> exn + 'b" where
  "on_result f r = (case r of Inl e \<Rightarrow> Inl e | Inr x \<Rightarrow> Inr (f x))"

lemma on_result_simps [simp]:
  "on_result f (Inl e) = Inl e"
  "on_result f (Inr x) = Inr (f x)"
  by (simp_all add: on_result_def)

lemma rebase_fields [simp]:
  "pos (rebase ts d lx) = pos lx"
  "buffer (rebase ts d lx) = buffer lx"
  "current_state (rebase ts d lx) = current_state lx"
  "current_input (rebase ts d lx) = current_input lx"
  "grammar_keywords (rebase ts d lx) = grammar_keywords lx"
  "line (rebase ts d lx) = line lx + d"
  "tokens (rebase ts d lx) = ts @ map (shift_line d) (tokens lx)"
  by (simp_all add: rebase_def)

lemma rebase_start: "handle_start (rebase ts d lx) c = rebase ts d (handle_start lx c)"
  by (simp add: handle_start_def add_operator_def add_delimiter_def rebase_def shift_line_def)

lemma rebase_finalize: "finalize_token (rebase ts d lx) = rebase ts d (finalize_token lx)"
  by (simp add: finalize_token_def rebase_def shift_line_def)

lemma rebase_upd:
  "(rebase ts d lx)\<lparr>buffer := b\<rparr> = rebase ts d (lx\<lparr>buffer := b\<rparr>)"
  "(rebase ts d lx)\<lparr>pos := p\<rparr> = rebase ts d (lx\<lparr>pos := p\<rparr>)"
  "(rebase ts d lx)\<lparr>current_state := s\<rparr> = rebase ts d (lx\<lparr>current_state := s\<rparr>)"
  "(rebase ts d lx)\<lparr>line := l\<rparr> = rebase ts d (lx\<lparr>line := l - d\<rparr>)"
  by (simp_all add: rebase_def)

lemma rebase_add_error: "add_error (rebase ts d lx) s = rebase ts d (add_error lx s)"
  by (simp add: add_error_def rebase_def shift_line_def)

lemma rebase_identifier: "handle_identifier (rebase ts d lx) c = rebase ts d (handle_identifier lx c)"
  by (simp add: handle_identifier_def rebase_finalize rebase_upd)

lemma rebase_scientific: "handle_scientific (rebase ts d lx) c = rebase ts d (handle_scientific lx c)"
  by (simp add: handle_scientific_def rebase_finalize rebase_upd)

lemma rebase_complex: "handle_complex (rebase ts d lx) c = rebase ts d (handle_complex lx c)"
  by (simp add: handle_complex_def rebase_finalize rebase_upd Let_def)

lemma rebase_string:
  "handle_string (rebase ts d lx) c = on_result (rebase ts d) (handle_string lx c)"
  by (simp add: handle_string_def rebase_finalize rebase_upd rebase_add_error Let_def
      split: sum.split)

lemma handle_number_plain:
  assumes "\<not> (length (buffer lx) = 1 \<and> hd (buffer lx) = CHR ''0'' \<and> isdigit c)"
  shows "handle_number lx c =
     (if isdigit c then Inr (lx\<lparr>buffer := buffer lx @ [c]\<rparr>)
      else if c = CHR ''.'' \<and> CHR ''.'' \<notin> set (buffer lx) \<and> \<not> has_e (buffer lx) then
        Inr (lx\<lparr>buffer := buffer lx @ [c]\<rparr>)
      else if lower c = CHR ''e'' \<and> \<not> has_e (buffer lx) then
        Inr (lx\<lparr>buffer := buffer lx @ [c], current_state := SCIENTIFIC\<rparr>)
      else if c = CHR ''+'' \<or> c = CHR ''-'' then
        (case py_index (buffer lx) (-1) of
           Inl e \<Rightarrow> Inl e
         | Inr b \<Rightarrow>
             if lower b = CHR ''e'' then Inr (lx\<lparr>buffer := buffer lx @ [c]\<rparr>)
             else Inr (lx\<lparr>buffer := buffer lx @ [c], current_state := COMPLEX\<rparr>))
      else Inr ((finalize_token lx)\<lparr>pos := pos lx - 1, current_state := START\<rparr>))"
  using assms unfolding handle_number_def Let_def by (simp only: if_False)

lemma rebase_number:
  "handle_number (rebase ts d lx) c = on_result (rebase ts d) (handle_number lx c)"
proof (cases "length (buffer lx) = 1 \<and> hd (buffer lx) = CHR ''0'' \<and> isdigit c")
  case True
  then show ?thesis
    by (cases "consume_digits (current_input lx) (pos lx) (buffer lx @ [c])")
       (auto simp: handle_number_def rebase_upd rebase_add_error Let_def)
next
  case False
  then have F': "\<not> (length (buffer (rebase ts d lx)) = 1 \<and>
      hd (buffer (rebase ts d lx)) = CHR ''0'' \<and> isdigit c)"
    by simp
  show ?thesis
    unfolding handle_number_plain[OF False] handle_number_plain[OF F']
    by (simp add: rebase_finalize rebase_upd split: sum.split)
qed

lemma rebase_handler: "handler (rebase ts d lx) c = on_result (rebase ts d) (handler lx c)"
  by (cases "current_state lx")
     (simp_all add: handler_def rebase_start rebase_identifier rebase_scientific
        rebase_complex rebase_string rebase_number)

lemma rebase_step: "step (rebase ts d lx) = on_result (rebase ts d) (step lx)"
  by (cases "py_index (current_input lx) (pos lx)")
     (simp_all add: step_def Let_def rebase_upd rebase_handler)

lemma rebase_loop: "tokenize_loop (rebase ts d lx) = on_result (rebase ts d) (tokenize_loop lx)"
proof (induction lx rule: tokenize_loop.induct)
  case (1 lx)
  show ?case
  proof (cases "pos lx < int (length (current_input lx))")
    case False
    then show ?thesis
      by (subst (1 2) tokenize_loop.simps) simp
  next
    case True
    show ?thesis
    proof (cases "step lx")
      case (Inl e)
      with True show ?thesis
        by (subst (1 2) tokenize_loop.simps) (simp add: rebase_step)
    next
      case (Inr lx1)
      with True "1.IH"[OF True Inr] show ?thesis
        by (subst (1 2) tokenize_loop.simps) (simp add: rebase_step)
    qed
  qed
qed

lemma rebase_entry: "tokenize_entry (rebase ts d lx) code = rebase ts d (tokenize_entry lx code)"
  by (simp add: tokenize_entry_def rebase_def)

lemma rebase_tokenize:
  "tokenize (rebase ts d lx) code =
     on_result (\<lambda>(us, lx'). (ts @ map (shift_line d) us, rebase ts d lx')) (tokenize lx code)"
  by (cases "tokenize_loop (tokenize_entry lx code)")
     (simp_all add: tokenize_def rebase_entry rebase_loop rebase_finalize Let_def)

lemma tokenize_returns_tokens: "tokenize lx code = Inr (ts, lx') \<Longrightarrow> ts = tokens lx'"
  by (auto simp: tokenize_def Let_def split: sum.splits)

lemma as_rebase:
  "lx = rebase (tokens lx) (line lx - 1) (lx\<lparr>tokens := [], line := 1\<rparr>)"
  by (simp add: rebase_def)

lemma kw_number:
  "on_result grammar_keywords (handle_number lx c) = on_result (\<lambda>_. grammar_keywords lx) (handle_number lx c)"
proof (cases "length (buffer lx) = 1 \<and> hd (buffer lx) = CHR ''0'' \<and> isdigit c")
  case True
  then show ?thesis
    by (cases "consume_digits (current_input lx) (pos lx) (buffer lx @ [c])")
       (auto simp: handle_number_def add_error_def Let_def)
next
  case False
  show ?thesis
    unfolding handle_number_plain[OF False]
    by (simp add: finalize_token_def split: sum.split)
qed

lemma kw_string:
  "on_result grammar_keywords (handle_string lx c) = on_result (\<lambda>_. grammar_keywords lx) (handle_string lx c)"
  by (simp add: handle_string_def finalize_token_def add_error_def Let_def split: sum.split)

lemma kw_handler:
  "on_result grammar_keywords (handler lx c) = on_result (\<lambda>_. grammar_keywords lx) (handler lx c)"
  by (cases "current_state lx")
     (simp_all add: handler_def handle_start_def handle_identifier_def handle_scientific_def
        handle_complex_def finalize_token_def add_operator_def add_delimiter_def Let_def
        kw_number kw_string)

lemma handler_keywords: "handler lx c = Inr lx' \<Longrightarrow> grammar_keywords lx' = grammar_keywords lx"
  using kw_handler[of lx c] by simp

lemma step_keywords: "step lx = Inr lx' \<Longrightarrow> grammar_keywords lx' = grammar_keywords lx"
  by (cases "py_index (current_input lx) (pos lx)")
     (auto simp: step_def Let_def split: if_splits dest: handler_keywords)

lemma loop_keywords: "tokenize_loop lx = Inr lx' \<Longrightarrow> grammar_keywords lx' = grammar_keywords lx"
proof (induction lx rule: tokenize_loop.induct)
  case (1 lx)
  show ?case
  proof (cases "pos lx < int (length (current_input lx))")
    case False
    with "1.prems" show ?thesis by (subst (asm) tokenize_loop.simps) simp
  next
    case True
    show ?thesis
    proof (cases "step lx")
      case (Inl e)
      with True "1.prems" show ?thesis by (subst (asm) tokenize_loop.simps) simp
    next
      case (Inr lx1)
      with True "1.prems" have "tokenize_loop lx1 = Inr lx'"
        by (subst (asm) tokenize_loop.simps) simp
      from "1.IH"[OF True Inr this] step_keywords[OF Inr] show ?thesis by simp
    qed
  qed
qed

lemma tokenize_keywords:
  assumes "tokenize lx code = Inr (ts, lx')"
  shows "grammar_keywords lx' = grammar_keywords lx"
proof (cases "tokenize_loop (tokenize_entry lx code)")
  case (Inl e)
  with assms show ?thesis by (simp add: tokenize_def)
next
  case (Inr lx1)
  from loop_keywords[OF Inr] have "grammar_keywords lx1 = grammar_keywords lx"
    by (simp add: tokenize_entry_def)
  with assms Inr show ?thesis
    by (auto simp: tokenize_def finalize_token_def Let_def split: if_splits)
qed

lemma entry_as_rebase:
  "tokenize_entry lx code =
   rebase (tokens lx) (line lx - 1) (tokenize_entry (Lexer_init (grammar_keywords lx)) code)"
  by (simp add: tokenize_entry_def rebase_def Lexer_init_def)

lemma tokenize_as_rebase:
  "tokenize lx code =
   on_result (\<lambda>(us, lx'). (tokens lx @ map (shift_line (line lx - 1)) us,
                            rebase (tokens lx) (line lx - 1) lx'))
     (tokenize (Lexer_init (grammar_keywords lx)) code)"
proof -
  have "tokenize lx code =
        tokenize (rebase (tokens lx) (line lx - 1) (Lexer_init (grammar_keywords lx))) code"
    unfolding tokenize_def by (subst entry_as_rebase) (simp add: rebase_entry)
  then show ?thesis by (simp only: rebase_tokenize)
qed

subsection \<open>The leading-zero rule\<close>

lemma py_index_append: "py_index (xs @ y # ys) (int (length xs)) = Inr y"
  by (simp add: py_index_def)

lemma isdigit_not_NL: "isdigit c \<Longrightarrow> c \<noteq> NL"
  by (auto simp: isdigit_def ord_def)

lemma consume_digits_run:
  assumes "\<forall>d\<in>set ds. isdigit d" "post = [] \<or> \<not> isdigit (hd post)"
  shows "consume_digits (pre @ ds @ post) (int (length pre)) buf =
         Inr (int (length pre + length ds), buf @ ds)"
  using assms
proof (induction ds arbitrary: pre buf)
  case Nil
  show ?case
  proof (cases post)
    case Nil
    then show ?thesis by (subst consume_digits.simps) simp
  next
    case (Cons x xs)
    with Nil.prems have "\<not> isdigit x" by simp
    with Cons show ?thesis
      by (subst consume_digits.simps) (simp add: py_index_def nth_append)
  qed
next
  case (Cons d ds)
  have ix: "py_index (pre @ (d # ds) @ post) (int (length pre)) = Inr d"
    by (simp add: py_index_def nth_append)
  have "consume_digits ((pre @ [d]) @ ds @ post) (int (length (pre @ [d]))) (buf @ [d]) =
        Inr (int (length (pre @ [d]) + length ds), (buf @ [d]) @ ds)"
    using Cons.prems by (intro Cons.IH) auto
  then have "consume_digits (pre @ (d # ds) @ post) (int (length pre) + 1) (buf @ [d]) =
        Inr (int (length pre + length (d # ds)), buf @ d # ds)"
    by (simp add: add.commute)
  with ix Cons.prems(1) show ?case
    by (subst consume_digits.simps) simp
qed

lemma step_zero_rule:
  assumes "current_state lx = NUMBER" and "buffer lx = ''0''"
    and "py_index (current_input lx) (pos lx) = Inr d" and "isdigit d"
    and "consume_digits (current_input lx) (pos lx + 1) [CHR ''0'', d] = Inr (p, buf)"
  shows "step lx = Inr (lx\<lparr>pos := p, tokens := tokens lx @ [Token (line lx) ERROR buf],
                          buffer := [], current_state := START\<rparr>)"
  using assms isdigit_not_NL[OF assms(4)]
  by (simp add: step_def handler_def handle_number_def add_error_def Let_def)

section \<open>Claims about the scanner\<close>

text \<open>
  C1, as stated: every character met in \<open>START\<close> outside the listed classes yields
  an ERROR token. The source has that branch commented out: scanning \<^verbatim>\<open>@\<close> returns
  an empty token list.
\<close>

theorem start_unknown_char_counterexample:
  "tokenize (Lexer_init []) ''@'' =
     Inr ([], \<lparr>grammar_keywords = [], line = 1, pos = 1, tokens = [],
               current_state = START, buffer = [], current_input = ''@''\<rparr>)"
  by code_simp

text \<open>
  C1, amended: a character dispatched in \<open>START\<close> that is not a letter, \<^verbatim>\<open>_\<close>, a
  digit, a double quote, an operator or a delimiter character leaves the scanner as
  it was: no token is emitted for it, ERROR or other, and the state stays \<open>START\<close>.
\<close>

theorem start_other_char_dropped:
  assumes "\<not> (isalpha c \<or> c = CHR ''_'')" and "\<not> isdigit c" and "c \<noteq> DQUOTE"
    and "c \<notin> set ''+-*/=<>!&|''" and "c \<notin> set '';,(){}[]''"
  shows "handle_start lx c = lx"
  using assms by (simp add: handle_start_def)

theorem start_other_char_dropped_witness:
  "\<not> (isalpha (CHR ''@'') \<or> CHR ''@'' = CHR ''_'') \<and> \<not> isdigit (CHR ''@'') \<and> CHR ''@'' \<noteq> DQUOTE \<and>
   CHR ''@'' \<notin> set ''+-*/=<>!&|'' \<and> CHR ''@'' \<notin> set '';,(){}[]'' \<and>
   handle_start (Lexer_init []) (CHR ''@'') = Lexer_init []"
  using start_other_char_dropped[of "CHR ''@''" "Lexer_init []"]
  by (simp add: isalpha_def isdigit_def ord_def)

text \<open>
  C3 says a token carries the line on which it begins. The loop adds one to the line
  counter before it dispatches a newline, so an identifier ended by the newline of
  line 1 is recorded on line 2; the handler then steps back and the same newline is
  counted once more, leaving the counter at 3.
\<close>

theorem newline_terminated_token_line:
  "tokenize (Lexer_init []) [CHR ''x'', NL] =
     Inr ([Token 2 IDENTIFIER ''x''],
          \<lparr>grammar_keywords = [], line = 3, pos = 2, tokens = [Token 2 IDENTIFIER ''x''],
            current_state = START, buffer = [], current_input = [CHR ''x'', NL]\<rparr>)"
  by code_simp

text \<open>
  C4, as stated: every maximal digit run that starts with \<^verbatim>\<open>0\<close> and has two digits or
  more gives one ERROR token. In \<^verbatim>\<open>a01\<close> the run \<^verbatim>\<open>01\<close> is part of an identifier.
\<close>

theorem leading_zero_inside_identifier_counterexample:
  "tokenize (Lexer_init []) ''a01'' =
     Inr ([Token 1 IDENTIFIER ''a01''],
          \<lparr>grammar_keywords = [], line = 1, pos = 3, tokens = [Token 1 IDENTIFIER ''a01''],
            current_state = IDENTIFIER_S, buffer = [], current_input = ''a01''\<rparr>)"
  by code_simp

text \<open>
  C4, amended: when the scanner is in \<open>START\<close> with an empty buffer at the first
  character of a digit run that starts with \<^verbatim>\<open>0\<close>, has two digits or more and is
  not followed by a digit, it emits exactly one ERROR token whose lexeme is the whole
  run, on the current line, and goes on in \<open>START\<close> right after the run: the rest of
  the scan is the scan from there, so no other token holds a character of the run.
\<close>

theorem leading_zero_run:
  assumes "current_state lx = START" and "buffer lx = []"
    and "current_input lx = pre @ (CHR ''0'' # ds) @ post"
    and "pos lx = int (length pre)"
    and "ds \<noteq> []" and "\<forall>d\<in>set ds. isdigit d"
    and "post = [] \<or> \<not> isdigit (hd post)"
  shows "tokenize_loop lx =
         tokenize_loop (lx\<lparr>pos := pos lx + int (length (CHR ''0'' # ds)),
                           tokens := tokens lx @ [Token (line lx) ERROR (CHR ''0'' # ds)]\<rparr>)"
proof -
  from assms(5) obtain d ds' where ds: "ds = d # ds'" by (cases ds) auto
  with assms(6) have d: "isdigit d" and ds': "\<forall>x\<in>set ds'. isdigit x" by auto
  let ?inp = "current_input lx"
  define lx1 where "lx1 = lx\<lparr>pos := pos lx + 1, current_state := NUMBER, buffer := ''0''\<rparr>"
  have ix0: "py_index ?inp (pos lx) = Inr (CHR ''0'')"
    using assms(3,4) by (simp add: py_index_append)
  have s1: "step lx = Inr lx1"
    using ix0 assms(1,2)
    by (simp add: lx1_def step_def handler_def handle_start_def isalpha_def isdigit_def ord_def Let_def)
  have f1: "current_state lx1 = NUMBER" "buffer lx1 = ''0''" "current_input lx1 = ?inp"
    "pos lx1 = int (length (pre @ ''0''))" "line lx1 = line lx" "tokens lx1 = tokens lx"
    using assms(4) by (simp_all add: lx1_def)
  have inp1: "?inp = (pre @ ''0'') @ d # ds' @ post" using assms(3) ds by simp
  have ix1: "py_index (current_input lx1) (pos lx1) = Inr d"
    unfolding f1 by (subst inp1) (rule py_index_append)
  have inp2: "?inp = (pre @ [CHR ''0'', d]) @ ds' @ post" using assms(3) ds by simp
  have p2: "pos lx1 + 1 = int (length (pre @ [CHR ''0'', d]))" unfolding f1 by simp
  have "consume_digits ((pre @ [CHR ''0'', d]) @ ds' @ post) (int (length (pre @ [CHR ''0'', d]))) (''0'' @ [d]) =
        Inr (int (length (pre @ [CHR ''0'', d]) + length ds'), (''0'' @ [d]) @ ds')"
    using ds' assms(7) by (intro consume_digits_run) auto
  then have cd: "consume_digits (current_input lx1) (pos lx1 + 1) [CHR ''0'', d] =
        Inr (pos lx + int (length (CHR ''0'' # ds)), CHR ''0'' # ds)"
    unfolding f1(3) p2 inp2[symmetric] using assms(4) ds by simp
  let ?lx2 = "lx\<lparr>pos := pos lx + int (length (CHR ''0'' # ds)),
                  tokens := tokens lx @ [Token (line lx) ERROR (CHR ''0'' # ds)]\<rparr>"
  have "step lx1 = Inr (lx1\<lparr>pos := pos lx + int (length (CHR ''0'' # ds)),
          tokens := tokens lx1 @ [Token (line lx1) ERROR (CHR ''0'' # ds)],
          buffer := [], current_state := START\<rparr>)"
    by (rule step_zero_rule[OF f1(1) f1(2) ix1 d cd])
  also have "lx1\<lparr>pos := pos lx + int (length (CHR ''0'' # ds)),
          tokens := tokens lx1 @ [Token (line lx1) ERROR (CHR ''0'' # ds)],
          buffer := [], current_state := START\<rparr> = ?lx2"
    using assms(1,2) by (simp add: lx1_def)
  finally have s2: "step lx1 = Inr ?lx2" .
  have l0: "pos lx < int (length ?inp)" using assms(3,4) by simp
  have l1: "pos lx1 < int (length (current_input lx1))" unfolding f1 using assms(3) ds by simp
  have "tokenize_loop lx = tokenize_loop lx1"
    using l0 s1 by (subst tokenize_loop.simps) simp
  also have "\<dots> = tokenize_loop ?lx2"
    using l1 s2 by (subst tokenize_loop.simps) simp
  finally show ?thesis .
qed

theorem leading_zero_run_witness:
  "current_state (tokenize_entry (Lexer_init []) ''012;'') = START \<and>
   buffer (tokenize_entry (Lexer_init []) ''012;'') = [] \<and>
   current_input (tokenize_entry (Lexer_init []) ''012;'') = [] @ (CHR ''0'' # ''12'') @ '';'' \<and>
   pos (tokenize_entry (Lexer_init []) ''012;'') = int (length ([] :: string)) \<and>
   ''12'' \<noteq> [] \<and> list_all isdigit ''12'' \<and> \<not> isdigit (hd '';'') \<and>
   tokenize_loop (tokenize_entry (Lexer_init []) ''012;'') =
   tokenize_loop ((tokenize_entry (Lexer_init []) ''012;'')
                    \<lparr>pos := 3, tokens := [Token 1 ERROR ''012'']\<rparr>)"
  using leading_zero_run[of "tokenize_entry (Lexer_init []) ''012;''" "[]" "''12''" "'';''"]
  by (simp add: tokenize_entry_def Lexer_init_def isdigit_def ord_def)

text \<open>
  C9: in every state that the loop of \<^verbatim>\<open>tokenize\<close> reaches, if the state is
  \<open>COMPLEX\<close> and the character read sends \<^verbatim>\<open>handle_complex\<close> to its final branch,
  the step succeeds, returns to \<open>START\<close>, and the position after the step back by
  two is at least 1.
\<close>

theorem complex_backstep_position:
  assumes "reachable lx0 code lx"
    and "current_state lx = COMPLEX"
    and "pos lx < int (length (current_input lx))"
    and "py_index (current_input lx) (pos lx) = Inr c"
    and "complex_fallback (buffer lx) c"
  shows "\<exists>lx'. step lx = Inr lx' \<and> current_state lx' = START \<and> pos lx' = pos lx + 1 - 2 \<and> 1 \<le> pos lx'"
proof -
  from reachable_inv[OF assms(1)] assms(2) have "2 \<le> pos lx" by (simp add: scan_inv_def)
  with assms(2,4,5) show ?thesis
    by (auto simp: step_def handler_def handle_complex_def complex_fallback_def Let_def
        finalize_token_def)
qed

theorem complex_backstep_position_witness:
  "reachable (Lexer_init []) ''1+x''
     \<lparr>grammar_keywords = [], line = 1, pos = 2, tokens = [],
       current_state = COMPLEX, buffer = ''1+'', current_input = ''1+x''\<rparr> \<and>
   (\<exists>lx'. step \<lparr>grammar_keywords = [], line = 1, pos = 2, tokens = [],
                 current_state = COMPLEX, buffer = ''1+'', current_input = ''1+x''\<rparr> = Inr lx' \<and>
          current_state lx' = START \<and> pos lx' = 1 \<and> 1 \<le> pos lx')"
proof -
  let ?L0 = "tokenize_entry (Lexer_init []) ''1+x''"
  let ?L1 = "\<lparr>grammar_keywords = [], line = 1, pos = 1, tokens = [],
       current_state = NUMBER, buffer = ''1'', current_input = ''1+x''\<rparr>"
  let ?L2 = "\<lparr>grammar_keywords = [], line = 1, pos = 2, tokens = [],
       current_state = COMPLEX, buffer = ''1+'', current_input = ''1+x''\<rparr>"
  have r0: "reachable (Lexer_init []) ''1+x'' ?L0" by (rule reachable.entry)
  have "pos ?L0 < int (length (current_input ?L0))" by (simp add: tokenize_entry_def)
  moreover have "step ?L0 = Inr ?L1" by code_simp
  ultimately have r1: "reachable (Lexer_init []) ''1+x'' ?L1" by (rule reachable.iter[OF r0])
  have "pos ?L1 < int (length (current_input ?L1))" by simp
  moreover have "step ?L1 = Inr ?L2" by code_simp
  ultimately have r2: "reachable (Lexer_init []) ''1+x'' ?L2" by (rule reachable.iter[OF r1])
  have ix: "py_index (current_input ?L2) (pos ?L2) = Inr (CHR ''x'')" by (simp add: py_index_def)
  have fb: "complex_fallback (buffer ?L2) (CHR ''x'')"
    by (simp add: complex_fallback_def isdigit_def ord_def)
  from complex_backstep_position[OF r2 _ _ ix fb] r2 show ?thesis by simp
qed

text \<open>
  C10: \<^verbatim>\<open>tokenize\<close> resets neither the token list nor the line counter. If a call
  on \<open>s1\<close> returns \<open>ts1\<close> and leaves the instance \<open>lx1\<close>, a second call on \<open>s2\<close>
  returns \<open>ts1\<close> followed by the tokens a fresh instance gives for \<open>s2\<close>, their
  lines counted on from the line counter of \<open>lx1\<close>; the counter goes on likewise.
\<close>

theorem tokenize_keeps_tokens_and_line:
  assumes "tokenize lx s1 = Inr (ts1, lx1)"
    and "tokenize (Lexer_init (grammar_keywords lx)) s2 = Inr (us, lxf)"
  shows "\<exists>lx2. tokenize lx1 s2 = Inr (ts1 @ map (shift_line (line lx1 - 1)) us, lx2) \<and>
               line lx2 = line lx1 + (line lxf - 1)"
proof -
  have k: "grammar_keywords lx1 = grammar_keywords lx" by (rule tokenize_keywords[OF assms(1)])
  have t: "tokens lx1 = ts1" using tokenize_returns_tokens[OF assms(1)] by simp
  show ?thesis
    by (subst tokenize_as_rebase) (simp add: k t assms(2))
qed

theorem tokenize_keeps_tokens_and_line_witness:
  "tokenize (Lexer_init []) [CHR ''x'', NL] =
     Inr ([Token 2 IDENTIFIER ''x''],
          \<lparr>grammar_keywords = [], line = 3, pos = 2, tokens = [Token 2 IDENTIFIER ''x''],
            current_state = START, buffer = [], current_input = [CHR ''x'', NL]\<rparr>) \<and>
   tokenize (Lexer_init (grammar_keywords (Lexer_init []))) ''y'' =
     Inr ([Token 1 IDENTIFIER ''y''],
          \<lparr>grammar_keywords = [], line = 1, pos = 1, tokens = [Token 1 IDENTIFIER ''y''],
            current_state = IDENTIFIER_S, buffer = [], current_input = ''y''\<rparr>) \<and>
   (\<exists>lx2. tokenize \<lparr>grammar_keywords = [], line = 3, pos = 2, tokens = [Token 2 IDENTIFIER ''x''],
                     current_state = START, buffer = [], current_input = [CHR ''x'', NL]\<rparr> ''y'' =
            Inr ([Token 2 IDENTIFIER ''x'', Token 3 IDENTIFIER ''y''], lx2) \<and> line lx2 = 3)"
proof -
  have a: "tokenize (Lexer_init []) [CHR ''x'', NL] =
     Inr ([Token 2 IDENTIFIER ''x''],
          \<lparr>grammar_keywords = [], line = 3, pos = 2, tokens = [Token 2 IDENTIFIER ''x''],
            current_state = START, buffer = [], current_input = [CHR ''x'', NL]\<rparr>)"
    by code_simp
  have b: "tokenize (Lexer_init (grammar_keywords (Lexer_init []))) ''y'' =
     Inr ([Token 1 IDENTIFIER ''y''],
          \<lparr>grammar_keywords = [], line = 1, pos = 1, tokens = [Token 1 IDENTIFIER ''y''],
            current_state = IDENTIFIER_S, buffer = [], current_input = ''y''\<rparr>)"
    by code_simp
  from tokenize_keeps_tokens_and_line[OF a b] a b show ?thesis
    by (simp add: shift_line_def)
qed

end
